theory Spec2Isabelle
  imports Complex_Main "HOL-Library.Char_ord" "HOL-Library.List_Lexorder" "HOL-Library.Sublist"
begin

section \<open>Python values used by the environment\<close>

text \<open>
  A Python \<open>str\<close> is modelled as a \<open>string\<close> whose characters are the code points
  U+0000 .. U+00FF. Comparison of strings (\<open>HOL-Library.List_Lexorder\<close> over
  \<open>HOL-Library.Char_ord\<close>) is then Python's: lexicographic by code point, a proper
  prefix being smaller.
\<close>

subsection \<open>Dictionaries\<close>

text \<open>
  A \<open>dict\<close> is an association list in insertion order. \<open>dict_set\<close> is the assignment
  \<open>d[k] = v\<close>: an existing key keeps its position, a new key goes to the end.
  \<open>dict_get\<close> is \<open>d.get(k, default)\<close>, \<open>dict_keys\<close> is \<open>d.keys()\<close>.
\<close>

type_synonym ('k, 'v) dict = "('k \<times> 'v) list"

fun dict_set :: "'k \<Rightarrow> 'v \<Rightarrow> ('k, 'v) dict \<Rightarrow> ('k, 'v) dict" where
  "dict_set k v [] = [(k, v)]"
| "dict_set k v ((k', v') # d) =
     (if k' = k then (k', v) # d else (k', v') # dict_set k v d)"

definition dict_get :: "('k, 'v) dict \<Rightarrow> 'k \<Rightarrow> 'v \<Rightarrow> 'v" where
  "dict_get d k dflt = (case map_of d k of None \<Rightarrow> dflt | Some v \<Rightarrow> v)"

definition dict_keys :: "('k, 'v) dict \<Rightarrow> 'k list" where
  "dict_keys d = map fst d"

subsection \<open>Formatting: \<open>str(int)\<close>, \<open>repr(str)\<close>, \<open>repr(list)\<close>, \<open>str.join\<close>\<close>

fun py_str_nat :: "nat \<Rightarrow> string" where
  "py_str_nat n =
     (if n < 10 then [''0123456789'' ! n]
      else py_str_nat (n div 10) @ [''0123456789'' ! (n mod 10)])"

declare py_str_nat.simps [simp del]

definition py_str_int :: "int \<Rightarrow> string" where
  "py_str_int i = (if i < 0 then CHR ''-'' # py_str_nat (nat (- i)) else py_str_nat (nat i))"

text \<open>
  \<open>repr\<close> of a string: the quote is \<open>'\<close> unless the string holds a \<open>'\<close> and no
  \<open>"\<close>; the quote and the backslash are escaped with a backslash; tab, newline and
  carriage return become \<open>\t\<close>, \<open>\n\<close>, \<open>\r\<close>; every other code point that is not
  printable (below U+0020, U+007F .. U+00A0, U+00AD) becomes \<open>\xhh\<close>.
\<close>

definition py_hexdigit :: "nat \<Rightarrow> char" where
  "py_hexdigit n = ''0123456789abcdef'' ! n"

definition py_isprintable :: "char \<Rightarrow> bool" where
  "py_isprintable ch =
     (let n = (of_char ch :: nat) in (32 \<le> n \<and> n < 127) \<or> (161 \<le> n \<and> n \<noteq> 173))"

definition py_escape_char :: "char \<Rightarrow> char \<Rightarrow> string" where
  "py_escape_char quote ch =
     (if ch = quote \<or> ch = CHR 0x5C then [CHR 0x5C, ch]
      else if ch = CHR 0x09 then [CHR 0x5C, CHR ''t'']
      else if ch = CHR 0x0A then [CHR 0x5C, CHR ''n'']
      else if ch = CHR 0x0D then [CHR 0x5C, CHR ''r'']
      else if py_isprintable ch then [ch]
      else [CHR 0x5C, CHR ''x'',
            py_hexdigit ((of_char ch :: nat) div 16), py_hexdigit ((of_char ch :: nat) mod 16)])"

definition py_repr_str :: "string \<Rightarrow> string" where
  "py_repr_str s =
     (let quote = (if CHR 0x27 \<in> set s \<and> CHR 0x22 \<notin> set s then CHR 0x22 else CHR 0x27)
      in quote # concat (map (py_escape_char quote) s) @ [quote])"

fun py_join :: "string \<Rightarrow> string list \<Rightarrow> string" where
  "py_join sep [] = []"
| "py_join sep [x] = x"
| "py_join sep (x # y # ys) = x @ sep @ py_join sep (y # ys)"

definition py_repr_list :: "string list \<Rightarrow> string" where
  "py_repr_list xs = ''['' @ py_join '', '' (map py_repr_str xs) @ '']''"

text \<open>\<open>sorted(s)\<close> of a set of strings: its members once each, ascending.\<close>

definition py_sorted :: "string set \<Rightarrow> string list" where
  "py_sorted s = sorted_list_of_set s"

datatype py_val = PyInt int | PyBool bool

datatype error = ValueError string | NotImplementedError

section \<open>The environment object\<close>

text \<open>
  The list objects the environment refers to live in a store, so that two fields holding
  the same list can be told from two fields holding equal lists: \<open>possible_agents\<close>
  and \<open>agents\<close> are addresses, \<open>store\<close> maps an address to the list there, and
  \<open>next_addr\<close> is the first address not yet allocated. The four signal dictionaries
  and the counters of the concrete environment are held by value.
\<close>

type_synonym addr = nat

type_synonym info = "(string, py_val) dict"

record env =
  store :: "addr \<Rightarrow> string list"
  next_addr :: addr
  possible_agents :: addr
  agents :: addr
  step_count :: int
  max_steps :: int
  terminations :: "(string, bool) dict"
  truncations :: "(string, bool) dict"
  rewards :: "(string, real) dict"
  infos :: "(string, info) dict"

definition the_agents :: "env \<Rightarrow> string list" where
  "the_agents e = store e (agents e)"

definition the_possible_agents :: "env \<Rightarrow> string list" where
  "the_possible_agents e = store e (possible_agents e)"

text \<open>Building a new list object (a list display, a comprehension, \<open>list.copy()\<close>).\<close>

definition new_list :: "string list \<Rightarrow> env \<Rightarrow> addr \<times> env" where
  "new_list xs e =
     (next_addr e, e\<lparr>store := (store e)(next_addr e := xs), next_addr := Suc (next_addr e)\<rparr>)"

section \<open>\<open>ParallelEnv\<close> (gem/multiagent/parallel_env.py)\<close>

text \<open>
  A method that can raise returns \<open>(Inl error, env)\<close> or \<open>(Inr value, env)\<close>: the
  environment object outlives the exception, in the state the method left it in.
\<close>

definition validate_actions :: "(string, string) dict \<Rightarrow> env \<Rightarrow> error + unit" where
  "validate_actions actions e =
     (let action_agents = set (dict_keys actions);
          active_agents = set (the_agents e)
      in if action_agents \<noteq> active_agents then
           (let missing = active_agents - action_agents;
                extra = action_agents - active_agents;
                error_parts = [];
                error_parts =
                  (if missing \<noteq> {} then
                     error_parts @ [''Missing actions for agents: '' @ py_repr_list (py_sorted missing)]
                   else error_parts);
                error_parts =
                  (if extra \<noteq> {} then
                     error_parts @
                       [''Actions provided for non-active agents: '' @ py_repr_list (py_sorted extra)]
                   else error_parts)
            in Inl (ValueError (py_join ''. '' error_parts)))
         else Inr ())"

definition remove_dead_agents :: "env \<Rightarrow> env" where
  "remove_dead_agents e =
     (let (a, e') =
        new_list
          (filter
             (\<lambda>agent. \<not> (dict_get (terminations e) agent False \<or> dict_get (truncations e) agent False))
             (the_agents e))
          e
      in e'\<lparr>agents := a\<rparr>)"

text \<open>The abstract \<open>step\<close>: validation, then \<open>raise NotImplementedError\<close>.\<close>

definition ParallelEnv_step :: "(string, string) dict \<Rightarrow> env \<Rightarrow> (error + 'a) \<times> env" where
  "ParallelEnv_step actions e =
     (case validate_actions actions e of
        Inl err \<Rightarrow> (Inl err, e)
      | Inr _ \<Rightarrow> (Inl NotImplementedError, e))"

text \<open>The abstract \<open>reset\<close>: \<open>raise NotImplementedError\<close>.\<close>

definition ParallelEnv_reset :: "int option \<Rightarrow> env \<Rightarrow> (error + 'a) \<times> env" where
  "ParallelEnv_reset seed e = (Inl NotImplementedError, e)"

text \<open>The default \<open>state()\<close>, \<open>render()\<close> and \<open>close()\<close>.\<close>

definition ParallelEnv_state :: "env \<Rightarrow> (error + 'a) \<times> env" where
  "ParallelEnv_state e = (Inl NotImplementedError, e)"

definition ParallelEnv_render :: "env \<Rightarrow> 'a option \<times> env" where
  "ParallelEnv_render e = (None, e)"

definition ParallelEnv_close :: "env \<Rightarrow> unit \<times> env" where
  "ParallelEnv_close e = ((), e)"

section \<open>\<open>SimpleParallelEnv\<close> (tests/test_multiagent/test_parallel_env.py)\<close>

type_synonym observations = "(string, string) dict"

type_synonym step_result =
  "observations \<times> (string, real) dict \<times> (string, bool) dict \<times> (string, bool) dict \<times> (string, info) dict"

text \<open>The dict comprehension \<open>{agent: v for agent in xs}\<close>.\<close>

definition dict_from_keys :: "'k list \<Rightarrow> 'v \<Rightarrow> ('k, 'v) dict" where
  "dict_from_keys xs v = foldl (\<lambda>d k. dict_set k v d) [] xs"

text \<open>
  \<open>__init__\<close>. Every field of the model is assigned by this constructor; the record it
  starts from only provides an empty store. The \<open>metadata\<close> dictionary that
  \<open>ParallelEnv.__init__\<close> sets is not part of the model.
\<close>

definition SimpleParallelEnv_init :: env where
  "SimpleParallelEnv_init =
     (let e = \<lparr>store = (\<lambda>_. []), next_addr = 0, possible_agents = 0, agents = 0,
                step_count = 0, max_steps = 0, terminations = [], truncations = [],
                rewards = [], infos = []\<rparr>;
          (p, e) = new_list [''agent1'', ''agent2'', ''agent3''] e;
          e = e\<lparr>possible_agents := p\<rparr>;
          (a, e) = new_list (the_possible_agents e) e;
          e = e\<lparr>agents := a\<rparr>;
          e = e\<lparr>step_count := 0\<rparr>;
          e = e\<lparr>max_steps := 10\<rparr>;
          e = e\<lparr>terminations := dict_from_keys (the_agents e) False\<rparr>;
          e = e\<lparr>truncations := dict_from_keys (the_agents e) False\<rparr>;
          e = e\<lparr>rewards := dict_from_keys (the_agents e) 0\<rparr>;
          e = e\<lparr>infos := dict_from_keys (the_agents e) []\<rparr>
      in e)"

text \<open>
  \<open>reset\<close>. Its first statement is \<open>super().reset(seed)\<close>; the class is declared
  \<open>SimpleParallelEnv(ParallelEnv)\<close>, so the method called is \<open>ParallelEnv.reset\<close>, and
  an exception it raises leaves \<open>reset\<close> at once, before any assignment.
\<close>

definition SimpleParallelEnv_reset ::
  "int option \<Rightarrow> env \<Rightarrow> (error + observations \<times> (string, info) dict) \<times> env" where
  "SimpleParallelEnv_reset seed e =
     (case (ParallelEnv_reset seed e
              :: (error + observations \<times> (string, info) dict) \<times> env) of
        (Inl err, e) \<Rightarrow> (Inl err, e)
      | (Inr _, e) \<Rightarrow>
          (let (a, e) = new_list (the_possible_agents e) e;
               e = e\<lparr>agents := a\<rparr>;
               e = e\<lparr>step_count := 0\<rparr>;
               (observations, infos') =
                 foldl
                   (\<lambda>(observations, infos') agent.
                      (dict_set agent (''Initial observation for '' @ agent) observations,
                       dict_set agent [(''initial'', PyBool True)] infos'))
                   ([], []) (the_agents e)
           in (Inr (observations, infos'), e)))"

text \<open>The body of the loop over \<open>actions.items()\<close> in \<open>step\<close>.\<close>

fun process_action ::
  "int \<Rightarrow> observations \<times> (string, real) dict \<times> (string, bool) dict \<times> (string, info) dict \<Rightarrow>
   string \<times> string \<Rightarrow>
   observations \<times> (string, real) dict \<times> (string, bool) dict \<times> (string, info) dict" where
  "process_action count (observations, rewards', terminations', infos') (agent, action) =
     (dict_set agent
        (''Step '' @ py_str_int (count + 1) @ '' result for '' @ agent @ '' after '' @ action)
        observations,
      dict_set agent
        (if action = ''good'' then 1 else if action = ''bad'' then - 1 else 0) rewards',
      dict_set agent (if action = ''terminate'' then True else False) terminations',
      dict_set agent [(''step'', PyInt (count + 1))] infos')"

definition SimpleParallelEnv_step ::
  "(string, string) dict \<Rightarrow> env \<Rightarrow> (error + step_result) \<times> env" where
  "SimpleParallelEnv_step actions e =
     (case validate_actions actions e of
        Inl err \<Rightarrow> (Inl err, e)
      | Inr _ \<Rightarrow>
          (let (observations, rewards', terminations', infos') =
                 foldl (process_action (step_count e)) ([], [], [], []) actions;
               e = e\<lparr>step_count := step_count e + 1\<rparr>;
               truncations' =
                 (if step_count e \<ge> max_steps e then
                    foldl (\<lambda>d agent. dict_set agent True d) [] (the_agents e)
                  else
                    foldl (\<lambda>d agent. dict_set agent False d) [] (the_agents e));
               e = e\<lparr>terminations := terminations'\<rparr>;
               e = e\<lparr>truncations := truncations'\<rparr>;
               e = e\<lparr>rewards := rewards'\<rparr>;
               e = e\<lparr>infos := infos'\<rparr>;
               e = remove_dead_agents e
           in (Inr (observations, rewards', terminations', truncations', infos'), e)))"

text \<open>
  A harness driving the environment: one call of \<open>step\<close> or \<open>reset\<close> after the other,
  raised or not.
\<close>

datatype call = Step "(string, string) dict" | Reset "int option"

fun run_calls :: "call list \<Rightarrow> env \<Rightarrow> env" where
  "run_calls [] e = e"
| "run_calls (Step actions # rest) e = run_calls rest (snd (SimpleParallelEnv_step actions e))"
| "run_calls (Reset seed # rest) e = run_calls rest (snd (SimpleParallelEnv_reset seed e))"

text \<open>The action mappings of \<open>test_termination\<close> and of \<open>test_step_with_all_agents\<close>.\<close>

definition actions_termination :: "(string, string) dict" where
  "actions_termination = [(''agent1'', ''terminate''), (''agent2'', ''good''), (''agent3'', ''good'')]"

definition actions_all_agents :: "(string, string) dict" where
  "actions_all_agents = [(''agent1'', ''good''), (''agent2'', ''bad''), (''agent3'', ''neutral'')]"

section \<open>Auxiliary facts\<close>

subsection \<open>Dictionaries\<close>

lemma dict_keys_dict_set_list:
  "dict_keys (dict_set k v d) = (if k \<in> set (dict_keys d) then dict_keys d else dict_keys d @ [k])"
  by (induction d) (force simp: dict_keys_def)+

lemma dict_keys_dict_set: "set (dict_keys (dict_set k v d)) = insert k (set (dict_keys d))"
  by (auto simp: dict_keys_dict_set_list)

lemma dict_keys_foldl_const:
  "set (dict_keys (foldl (\<lambda>d k. dict_set k v d) d0 xs)) = set (dict_keys d0) \<union> set xs"
  by (induction xs arbitrary: d0) (auto simp: dict_keys_dict_set)

lemma dict_get_map_of:
  "dict_get d k False \<longleftrightarrow> map_of d k = Some True"
  by (auto simp: dict_get_def split: option.splits)

lemma map_of_None_keys: "map_of d k = None \<longleftrightarrow> k \<notin> set (dict_keys d)"
  by (simp add: dict_keys_def map_of_eq_None_iff)

lemma foldl_process_action_keys:
  "foldl (process_action c) (o0, r0, t0, i0) actions = (obs, rews, terms, infs) \<Longrightarrow>
     set (dict_keys obs) = set (dict_keys o0) \<union> set (dict_keys actions) \<and>
     set (dict_keys rews) = set (dict_keys r0) \<union> set (dict_keys actions) \<and>
     set (dict_keys terms) = set (dict_keys t0) \<union> set (dict_keys actions) \<and>
     set (dict_keys infs) = set (dict_keys i0) \<union> set (dict_keys actions)"
proof (induction actions arbitrary: o0 r0 t0 i0)
  case Nil
  then show ?case by (simp add: dict_keys_def)
next
  case (Cons item actions)
  obtain agent action where item: "item = (agent, action)" by (cases item)
  from Cons.prems have
    "foldl (process_action c) (process_action c (o0, r0, t0, i0) (agent, action)) actions
       = (obs, rews, terms, infs)"
    by (simp add: item)
  then show ?case
    using Cons.IH by (simp add: dict_keys_dict_set item) (auto simp: dict_keys_def)
qed

subsection \<open>The store and the removal of dead agents\<close>

lemma the_agents_remove_dead_agents:
  "the_agents (remove_dead_agents e) =
     filter (\<lambda>agent. \<not> (dict_get (terminations e) agent False \<or> dict_get (truncations e) agent False))
       (the_agents e)"
  by (simp add: remove_dead_agents_def new_list_def the_agents_def)

lemma remove_dead_agents_fields:
  "possible_agents (remove_dead_agents e) = possible_agents e"
  "next_addr (remove_dead_agents e) = Suc (next_addr e)"
  "step_count (remove_dead_agents e) = step_count e"
  "max_steps (remove_dead_agents e) = max_steps e"
  "terminations (remove_dead_agents e) = terminations e"
  "truncations (remove_dead_agents e) = truncations e"
  "rewards (remove_dead_agents e) = rewards e"
  "infos (remove_dead_agents e) = infos e"
  by (simp_all add: remove_dead_agents_def new_list_def)

lemma the_possible_agents_remove_dead_agents:
  "possible_agents e < next_addr e \<Longrightarrow>
     the_possible_agents (remove_dead_agents e) = the_possible_agents e"
  by (simp add: remove_dead_agents_def new_list_def the_possible_agents_def)

subsection \<open>Validation and the two outcomes of \<open>step\<close>\<close>

lemma validate_actions_ok:
  "set (dict_keys actions) = set (the_agents e) \<Longrightarrow> validate_actions actions e = Inr ()"
  by (simp add: validate_actions_def)

lemma py_sorted_props:
  "finite s \<Longrightarrow> sorted (py_sorted s) \<and> distinct (py_sorted s) \<and> set (py_sorted s) = s"
  by (simp add: py_sorted_def)

lemma py_sorted_Nil: "finite s \<Longrightarrow> py_sorted s = [] \<longleftrightarrow> s = {}"
  by (simp add: py_sorted_def)

lemma validate_actions_mismatch:
  assumes "set (dict_keys actions) \<noteq> set (the_agents e)"
  shows "validate_actions actions e =
     Inl (ValueError
       (let missing = py_sorted (set (the_agents e) - set (dict_keys actions));
            extra = py_sorted (set (dict_keys actions) - set (the_agents e))
        in if missing \<noteq> [] \<and> extra \<noteq> [] then
             ''Missing actions for agents: '' @ py_repr_list missing @ ''. '' @
             ''Actions provided for non-active agents: '' @ py_repr_list extra
           else if missing \<noteq> [] then ''Missing actions for agents: '' @ py_repr_list missing
           else ''Actions provided for non-active agents: '' @ py_repr_list extra))"
proof -
  have "set (the_agents e) - set (dict_keys actions) \<noteq> {} \<or>
        set (dict_keys actions) - set (the_agents e) \<noteq> {}"
    using assms by blast
  then show ?thesis
    using assms by (auto simp: validate_actions_def Let_def py_sorted_Nil)
qed


lemma step_raises:
  "validate_actions actions e = Inl err \<Longrightarrow> SimpleParallelEnv_step actions e = (Inl err, e)"
  by (simp add: SimpleParallelEnv_step_def)

lemma step_returns:
  assumes "set (dict_keys actions) = set (the_agents e)"
    and "foldl (process_action (step_count e)) ([], [], [], []) actions = (obs, rews, terms, infs)"
    and "truncs = foldl (\<lambda>d agent. dict_set agent (step_count e + 1 \<ge> max_steps e) d) [] (the_agents e)"
  shows "SimpleParallelEnv_step actions e =
     (Inr (obs, rews, terms, truncs, infs),
      remove_dead_agents (e\<lparr>step_count := step_count e + 1, terminations := terms,
         truncations := truncs, rewards := rews, infos := infs\<rparr>))"
  using assms
  by (simp add: SimpleParallelEnv_step_def validate_actions_ok Let_def the_agents_def)

subsection \<open>The message of the mismatch error\<close>

lemma sublist_py_join: "x \<in> set xs \<Longrightarrow> sublist x (py_join sep xs)"
proof (induction sep xs rule: py_join.induct)
  case (1 sep)
  then show ?case by simp
next
  case (2 sep y)
  then show ?case by simp
next
  case (3 sep y z zs)
  show ?case
  proof (cases "x = y")
    case True
    then show ?thesis by (simp add: sublist_append_rightI del: py_join.simps(2))
  next
    case False
    with 3 have "sublist x (py_join sep (z # zs))" by simp
    then obtain ps ss where "py_join sep (z # zs) = ps @ x @ ss"
      by (auto simp: sublist_def)
    then have "py_join sep (y # z # zs) = (y @ sep @ ps) @ x @ ss"
      by simp
    then show ?thesis unfolding sublist_def by blast
  qed
qed

lemma sublist_py_repr_list: "a \<in> set xs \<Longrightarrow> sublist (py_repr_str a) (py_repr_list xs)"
proof -
  assume "a \<in> set xs"
  then have "sublist (py_repr_str a) (py_join '', '' (map py_repr_str xs))"
    by (intro sublist_py_join) simp
  then obtain ps ss where "py_join '', '' (map py_repr_str xs) = ps @ py_repr_str a @ ss"
    by (auto simp: sublist_def)
  then have "py_repr_list xs = (''['' @ ps) @ py_repr_str a @ (ss @ '']'')"
    by (simp add: py_repr_list_def)
  then show ?thesis unfolding sublist_def by blast
qed

subsection \<open>The constructed environment\<close>

lemma init_fields:
  "the_agents SimpleParallelEnv_init = [''agent1'', ''agent2'', ''agent3'']"
  "the_possible_agents SimpleParallelEnv_init = [''agent1'', ''agent2'', ''agent3'']"
  "possible_agents SimpleParallelEnv_init = 0"
  "agents SimpleParallelEnv_init = 1"
  "next_addr SimpleParallelEnv_init = 2"
  "step_count SimpleParallelEnv_init = 0"
  "max_steps SimpleParallelEnv_init = 10"
  by (simp_all add: SimpleParallelEnv_init_def new_list_def the_agents_def
      the_possible_agents_def)

subsection \<open>A step that returns\<close>

lemma step_success_cases:
  assumes "SimpleParallelEnv_step actions e = (Inr (obs, rews, terms, truncs, infs), e')"
  obtains "set (dict_keys actions) = set (the_agents e)"
    and "foldl (process_action (step_count e)) ([], [], [], []) actions = (obs, rews, terms, infs)"
    and "truncs = foldl (\<lambda>d agent. dict_set agent (step_count e + 1 \<ge> max_steps e) d) [] (the_agents e)"
    and "e' = remove_dead_agents (e\<lparr>step_count := step_count e + 1, terminations := terms,
           truncations := truncs, rewards := rews, infos := infs\<rparr>)"
proof -
  have keys: "set (dict_keys actions) = set (the_agents e)"
  proof (rule ccontr)
    assume "set (dict_keys actions) \<noteq> set (the_agents e)"
    from validate_actions_mismatch [OF this] obtain msg where
      "validate_actions actions e = Inl (ValueError msg)" by blast
    from step_raises [OF this] assms show False by simp
  qed
  obtain obs' rews' terms' infs' where
    f: "foldl (process_action (step_count e)) ([], [], [], []) actions = (obs', rews', terms', infs')"
    by (metis prod_cases4)
  from step_returns [OF keys f refl] assms that keys f show thesis by simp
qed


subsection \<open>The step of \<open>test_termination\<close>\<close>

lemma fold_actions_termination:
  "foldl (process_action 0) ([], [], [], []) actions_termination =
    ([(''agent1'', ''Step 1 result for agent1 after terminate''),
      (''agent2'', ''Step 1 result for agent2 after good''),
      (''agent3'', ''Step 1 result for agent3 after good'')],
     [(''agent1'', 0), (''agent2'', 1), (''agent3'', 1)],
     [(''agent1'', True), (''agent2'', False), (''agent3'', False)],
     [(''agent1'', [(''step'', PyInt 1)]),
      (''agent2'', [(''step'', PyInt 1)]),
      (''agent3'', [(''step'', PyInt 1)])])"
  by code_simp

lemma keys_actions_termination:
  "dict_keys actions_termination = [''agent1'', ''agent2'', ''agent3'']"
  by (simp add: actions_termination_def dict_keys_def)

lemma step_termination:
  assumes "the_agents e = [''agent1'', ''agent2'', ''agent3'']"
    and "step_count e = 0" and "1 < max_steps e"
  shows "SimpleParallelEnv_step actions_termination e =
    (Inr ([(''agent1'', ''Step 1 result for agent1 after terminate''),
           (''agent2'', ''Step 1 result for agent2 after good''),
           (''agent3'', ''Step 1 result for agent3 after good'')],
          [(''agent1'', 0), (''agent2'', 1), (''agent3'', 1)],
          [(''agent1'', True), (''agent2'', False), (''agent3'', False)],
          [(''agent1'', False), (''agent2'', False), (''agent3'', False)],
          [(''agent1'', [(''step'', PyInt 1)]),
           (''agent2'', [(''step'', PyInt 1)]),
           (''agent3'', [(''step'', PyInt 1)])]),
     remove_dead_agents (e\<lparr>step_count := 1,
        terminations := [(''agent1'', True), (''agent2'', False), (''agent3'', False)],
        truncations := [(''agent1'', False), (''agent2'', False), (''agent3'', False)],
        rewards := [(''agent1'', 0), (''agent2'', 1), (''agent3'', 1)],
        infos := [(''agent1'', [(''step'', PyInt 1)]),
           (''agent2'', [(''step'', PyInt 1)]),
           (''agent3'', [(''step'', PyInt 1)])]\<rparr>))"
proof -
  have k: "set (dict_keys actions_termination) = set (the_agents e)"
    by (simp add: keys_actions_termination assms)
  show ?thesis
    by (rule step_returns [OF k, THEN trans])
       (simp_all add: assms fold_actions_termination not_le)
qed

subsection \<open>\<open>reset\<close>\<close>

lemma SimpleParallelEnv_reset_raises:
  "SimpleParallelEnv_reset seed e = (Inl NotImplementedError, e)"
  by (simp add: SimpleParallelEnv_reset_def ParallelEnv_reset_def)

subsection \<open>The flags and rewards a step computes\<close>

lemma foldl_process_action_flags:
  "foldl (process_action c) (o0, r0, t0, i0) actions = (obs, rews, terms, infs) \<Longrightarrow>
     terms = foldl (\<lambda>d (agent, action).
               dict_set agent (if action = ''terminate'' then True else False) d) t0 actions \<and>
     rews = foldl (\<lambda>d (agent, action).
              dict_set agent (if action = ''good'' then 1 else if action = ''bad'' then - 1 else 0) d)
              r0 actions"
proof (induction actions arbitrary: o0 r0 t0 i0)
  case Nil
  then show ?case by simp
next
  case (Cons item actions)
  obtain agent action where item: "item = (agent, action)" by (cases item)
  from Cons.prems have
    "foldl (process_action c)
       (dict_set agent
          (''Step '' @ py_str_int (c + 1) @ '' result for '' @ agent @ '' after '' @ action) o0,
        dict_set agent (if action = ''good'' then 1 else if action = ''bad'' then - 1 else 0) r0,
        dict_set agent (if action = ''terminate'' then True else False) t0,
        dict_set agent [(''step'', PyInt (c + 1))] i0) actions
       = (obs, rews, terms, infs)"
    unfolding item foldl_Cons process_action.simps .
  from Cons.IH [OF this] show ?case
    unfolding item foldl_Cons prod.case .
qed

subsection \<open>The roster along an episode\<close>

lemma filter_by_membership:
  assumes "ys = filter (\<lambda>a. a \<in> set ys) xs"
  shows "filter Q ys = filter (\<lambda>a. a \<in> set (filter Q ys)) xs"
proof -
  have "filter Q ys = filter Q (filter (\<lambda>a. a \<in> set ys) xs)"
    using assms by simp
  also have "\<dots> = filter (\<lambda>a. a \<in> set ys \<and> Q a) xs"
    by simp
  also have "\<dots> = filter (\<lambda>a. a \<in> set (filter Q ys)) xs"
    by (rule filter_cong) auto
  finally show ?thesis .
qed

text \<open>What a step leaves in place, raised or not.\<close>

lemma step_env:
  "snd (SimpleParallelEnv_step actions e) = e \<or>
   (\<exists>rews terms truncs infs.
      snd (SimpleParallelEnv_step actions e) =
        remove_dead_agents (e\<lparr>step_count := step_count e + 1, terminations := terms,
           truncations := truncs, rewards := rews, infos := infs\<rparr>))"
proof (cases "set (dict_keys actions) = set (the_agents e)")
  case True
  obtain obs rews terms infs where
    f: "foldl (process_action (step_count e)) ([], [], [], []) actions = (obs, rews, terms, infs)"
    by (metis prod_cases4)
  from step_returns [OF True f refl] show ?thesis by auto
next
  case False
  from validate_actions_mismatch [OF this] obtain msg where
    "validate_actions actions e = Inl (ValueError msg)" by blast
  from step_raises [OF this] show ?thesis by simp
qed

lemma step_subseq: "subseq (the_agents (snd (SimpleParallelEnv_step actions e))) (the_agents e)"
  using step_env [of actions e]
  by (auto simp: the_agents_remove_dead_agents) (simp add: the_agents_def)

lemma roster_step:
  assumes "possible_agents e < next_addr e"
    and "the_agents e = filter (\<lambda>a. a \<in> set (the_agents e)) (the_possible_agents e)"
  shows "possible_agents (snd (SimpleParallelEnv_step actions e))
           < next_addr (snd (SimpleParallelEnv_step actions e))"
    and "the_possible_agents (snd (SimpleParallelEnv_step actions e)) = the_possible_agents e"
    and "the_agents (snd (SimpleParallelEnv_step actions e)) =
           filter (\<lambda>a. a \<in> set (the_agents (snd (SimpleParallelEnv_step actions e))))
             (the_possible_agents e)"
proof -
  consider "snd (SimpleParallelEnv_step actions e) = e"
    | rews terms truncs infs where
      "snd (SimpleParallelEnv_step actions e) =
        remove_dead_agents (e\<lparr>step_count := step_count e + 1, terminations := terms,
           truncations := truncs, rewards := rews, infos := infs\<rparr>)"
    using step_env [of actions e] by blast
  then have "possible_agents (snd (SimpleParallelEnv_step actions e))
           < next_addr (snd (SimpleParallelEnv_step actions e)) \<and>
         the_possible_agents (snd (SimpleParallelEnv_step actions e)) = the_possible_agents e \<and>
         the_agents (snd (SimpleParallelEnv_step actions e)) =
           filter (\<lambda>a. a \<in> set (the_agents (snd (SimpleParallelEnv_step actions e))))
             (the_possible_agents e)"
  proof cases
    case 1
    with assms show ?thesis by simp
  next
    case 2
    let ?e1 = "e\<lparr>step_count := step_count e + 1, terminations := terms,
           truncations := truncs, rewards := rews, infos := infs\<rparr>"
    have a: "the_agents ?e1 = the_agents e" and p: "the_possible_agents ?e1 = the_possible_agents e"
      by (simp_all add: the_agents_def the_possible_agents_def)
    have lt: "possible_agents ?e1 < next_addr ?e1"
      using assms(1) by simp
    let ?keep = "\<lambda>agent. \<not> (dict_get terms agent False \<or> dict_get truncs agent False)"
    have r: "the_agents (remove_dead_agents ?e1) = filter ?keep (the_agents e)"
      by (simp add: the_agents_remove_dead_agents a)
    have "filter ?keep (the_agents e) =
        filter (\<lambda>a. a \<in> set (filter ?keep (the_agents e))) (the_possible_agents e)"
      using assms(2) by (rule filter_by_membership)
    then have "the_agents (remove_dead_agents ?e1) =
        filter (\<lambda>a. a \<in> set (the_agents (remove_dead_agents ?e1))) (the_possible_agents e)"
      by (simp only: r)
    moreover have "the_possible_agents (remove_dead_agents ?e1) = the_possible_agents e"
      using lt by (simp only: the_possible_agents_remove_dead_agents p)
    moreover have "possible_agents (remove_dead_agents ?e1) < next_addr (remove_dead_agents ?e1)"
      using lt by (simp add: remove_dead_agents_fields)
    ultimately show ?thesis
      unfolding 2 by blast
  qed
  then show "possible_agents (snd (SimpleParallelEnv_step actions e))
           < next_addr (snd (SimpleParallelEnv_step actions e))"
    and "the_possible_agents (snd (SimpleParallelEnv_step actions e)) = the_possible_agents e"
    and "the_agents (snd (SimpleParallelEnv_step actions e)) =
           filter (\<lambda>a. a \<in> set (the_agents (snd (SimpleParallelEnv_step actions e))))
             (the_possible_agents e)"
    by simp_all
qed

lemma roster_run_calls:
  assumes "possible_agents e < next_addr e"
    and "the_agents e = filter (\<lambda>a. a \<in> set (the_agents e)) (the_possible_agents e)"
  shows "possible_agents (run_calls calls e) < next_addr (run_calls calls e) \<and>
         the_possible_agents (run_calls calls e) = the_possible_agents e \<and>
         the_agents (run_calls calls e) =
           filter (\<lambda>a. a \<in> set (the_agents (run_calls calls e))) (the_possible_agents e)"
  using assms
proof (induction calls arbitrary: e)
  case Nil
  then show ?case by simp
next
  case (Cons c calls)
  show ?case
  proof (cases c)
    case (Step actions)
    from roster_step [OF Cons.prems, of actions]
      Cons.IH [of "snd (SimpleParallelEnv_step actions e)"]
    show ?thesis by (simp add: Step)
  next
    case (Reset seed)
    from Cons.IH [OF Cons.prems] show ?thesis
      by (simp add: Reset SimpleParallelEnv_reset_raises)
  qed
qed

subsection \<open>The steps of the scenarios\<close>

text \<open>The environment after the step of \<open>test_termination\<close>.\<close>

lemma after_termination_fields:
  "the_agents (snd (SimpleParallelEnv_step actions_termination SimpleParallelEnv_init)) = [''agent2'', ''agent3'']"
  "the_possible_agents (snd (SimpleParallelEnv_step actions_termination SimpleParallelEnv_init)) =
     [''agent1'', ''agent2'', ''agent3'']"
  "possible_agents (snd (SimpleParallelEnv_step actions_termination SimpleParallelEnv_init)) = 0"
  "next_addr (snd (SimpleParallelEnv_step actions_termination SimpleParallelEnv_init)) = 3"
proof -
  note s = step_termination [of SimpleParallelEnv_init, simplified init_fields, simplified]
  show "the_agents (snd (SimpleParallelEnv_step actions_termination SimpleParallelEnv_init)) = [''agent2'', ''agent3'']"
    by (simp add: s the_agents_remove_dead_agents dict_get_def)
       (simp add: the_agents_def init_fields(1) [unfolded the_agents_def])
  show "the_possible_agents (snd (SimpleParallelEnv_step actions_termination SimpleParallelEnv_init)) =
     [''agent1'', ''agent2'', ''agent3'']"
    using init_fields(2)
    by (simp add: s the_possible_agents_remove_dead_agents init_fields(3,5))
       (simp add: the_possible_agents_def init_fields(3))
  show "possible_agents (snd (SimpleParallelEnv_step actions_termination SimpleParallelEnv_init)) = 0"
    by (simp add: s remove_dead_agents_fields init_fields)
  show "next_addr (snd (SimpleParallelEnv_step actions_termination SimpleParallelEnv_init)) = 3"
    by (simp add: s remove_dead_agents_fields init_fields)
qed

lemma keys_actions_all_agents:
  "dict_keys actions_all_agents = [''agent1'', ''agent2'', ''agent3'']"
  by (simp add: actions_all_agents_def dict_keys_def)

lemma step_all_agents:
  assumes "the_agents e = [''agent1'', ''agent2'', ''agent3'']"
  shows "\<exists>obs infs.
    SimpleParallelEnv_step actions_all_agents e =
      (Inr (obs,
            [(''agent1'', 1), (''agent2'', - 1), (''agent3'', 0)],
            [(''agent1'', False), (''agent2'', False), (''agent3'', False)],
            [(''agent1'', max_steps e \<le> step_count e + 1),
             (''agent2'', max_steps e \<le> step_count e + 1),
             (''agent3'', max_steps e \<le> step_count e + 1)],
            infs),
       remove_dead_agents (e\<lparr>step_count := step_count e + 1,
         terminations := [(''agent1'', False), (''agent2'', False), (''agent3'', False)],
         truncations := [(''agent1'', max_steps e \<le> step_count e + 1),
             (''agent2'', max_steps e \<le> step_count e + 1),
             (''agent3'', max_steps e \<le> step_count e + 1)],
         rewards := [(''agent1'', 1), (''agent2'', - 1), (''agent3'', 0)],
         infos := infs\<rparr>))"
proof -
  have k: "set (dict_keys actions_all_agents) = set (the_agents e)"
    by (simp add: keys_actions_all_agents assms)
  obtain obs rews terms infs where
    f: "foldl (process_action (step_count e)) ([], [], [], []) actions_all_agents
          = (obs, rews, terms, infs)"
    by (metis prod_cases4)
  have terms: "terms = [(''agent1'', False), (''agent2'', False), (''agent3'', False)]"
    and rews: "rews = [(''agent1'', 1), (''agent2'', - 1), (''agent3'', 0)]"
    using foldl_process_action_flags [OF f] by (simp_all add: actions_all_agents_def)
  have "foldl (\<lambda>d agent. dict_set agent (step_count e + 1 \<ge> max_steps e) d) [] (the_agents e) =
      [(''agent1'', max_steps e \<le> step_count e + 1),
       (''agent2'', max_steps e \<le> step_count e + 1),
       (''agent3'', max_steps e \<le> step_count e + 1)]"
    by (simp add: assms)
  from step_returns [OF k f this [symmetric]] show ?thesis
    unfolding terms rews by blast
qed

section \<open>The claims\<close>

subsection \<open>C1: the mismatch error and its message\<close>

text \<open>
  C1. For every action mapping whose key set differs from the set of active agents,
  \<open>_validate_actions\<close>, and with it \<open>step\<close> (the concrete one and the abstract one),
  raises \<open>ValueError\<close>. With \<open>missing\<close> the active agents that have no action and
  \<open>extra\<close> the keys of the mapping that are not active, each as the ascending list
  without repetition of exactly these agents, the message is the clause
  \<open>Missing actions for agents: \<close> followed by the \<open>repr\<close> of \<open>missing\<close> when only
  agents are missing, the clause \<open>Actions provided for non-active agents: \<close> followed by
  the \<open>repr\<close> of \<open>extra\<close> when there are only extras, and both clauses, in this
  order, joined by \<open>. \<close> when both kinds of mismatch exist; the \<open>repr\<close> of every
  such agent occurs in the message.
\<close>

theorem step_mismatch_message:
  assumes "set (dict_keys actions) \<noteq> set (the_agents e)"
  shows "\<exists>missing extra msg.
     sorted missing \<and> distinct missing \<and>
     set missing = set (the_agents e) - set (dict_keys actions) \<and>
     sorted extra \<and> distinct extra \<and>
     set extra = set (dict_keys actions) - set (the_agents e) \<and>
     msg = (if missing \<noteq> [] \<and> extra \<noteq> [] then
              ''Missing actions for agents: '' @ py_repr_list missing @ ''. '' @
              ''Actions provided for non-active agents: '' @ py_repr_list extra
            else if missing \<noteq> [] then ''Missing actions for agents: '' @ py_repr_list missing
            else ''Actions provided for non-active agents: '' @ py_repr_list extra) \<and>
     (\<forall>a \<in> set missing \<union> set extra. sublist (py_repr_str a) msg) \<and>
     validate_actions actions e = Inl (ValueError msg) \<and>
     SimpleParallelEnv_step actions e = (Inl (ValueError msg), e) \<and>
     (ParallelEnv_step actions e :: (error + 'a) \<times> env) = (Inl (ValueError msg), e)"
proof -
  define missing where "missing = py_sorted (set (the_agents e) - set (dict_keys actions))"
  define extra where "extra = py_sorted (set (dict_keys actions) - set (the_agents e))"
  define msg where "msg =
    (if missing \<noteq> [] \<and> extra \<noteq> [] then
       ''Missing actions for agents: '' @ py_repr_list missing @ ''. '' @
       ''Actions provided for non-active agents: '' @ py_repr_list extra
     else if missing \<noteq> [] then ''Missing actions for agents: '' @ py_repr_list missing
     else ''Actions provided for non-active agents: '' @ py_repr_list extra)"
  have m: "sorted missing \<and> distinct missing \<and>
      set missing = set (the_agents e) - set (dict_keys actions)"
    unfolding missing_def by (rule py_sorted_props) simp
  have x: "sorted extra \<and> distinct extra \<and>
      set extra = set (dict_keys actions) - set (the_agents e)"
    unfolding extra_def by (rule py_sorted_props) simp
  have v: "validate_actions actions e = Inl (ValueError msg)"
    using validate_actions_mismatch [OF assms] by (simp add: msg_def missing_def extra_def Let_def)
  have s: "SimpleParallelEnv_step actions e = (Inl (ValueError msg), e)"
    using v by (rule step_raises)
  have p: "(ParallelEnv_step actions e :: (error + 'a) \<times> env) = (Inl (ValueError msg), e)"
    using v by (simp add: ParallelEnv_step_def)
  have l: "sublist (py_repr_str a) msg" if "a \<in> set missing \<union> set extra" for a
  proof -
    have in_m: "sublist (py_repr_str a) (pre @ py_repr_list missing @ post)"
      if "a \<in> set missing" for pre post
      using sublist_py_repr_list [OF that] by (auto simp: sublist_def) (metis append.assoc)
    have in_x: "sublist (py_repr_str a) (pre @ py_repr_list extra @ post)"
      if "a \<in> set extra" for pre post
      using sublist_py_repr_list [OF that] by (auto simp: sublist_def) (metis append.assoc)
    show ?thesis
    proof (cases "a \<in> set missing")
      case True
      then have ne: "missing \<noteq> []" by auto
      from in_m [OF True, of "''Missing actions for agents: ''" "[]"]
        in_m [OF True, of "''Missing actions for agents: ''"
                 "''. '' @ ''Actions provided for non-active agents: '' @ py_repr_list extra"]
      show ?thesis using ne by (simp add: msg_def)
    next
      case False
      with that have ax: "a \<in> set extra" by simp
      then have ne: "extra \<noteq> []" by auto
      from in_x [OF ax, of "''Actions provided for non-active agents: ''" "[]"]
        in_x [OF ax, of "''Missing actions for agents: '' @ py_repr_list missing @ ''. '' @
                 ''Actions provided for non-active agents: ''" "[]"]
      show ?thesis using ne by (simp add: msg_def)
    qed
  qed
  from m x v s p l msg_def show ?thesis by blast
qed

theorem step_mismatch_message_witness:
  "set (dict_keys [(''agent1'', ''terminate''), (''agent4'', ''good''), (''agent0'', ''good'')])
     \<noteq> set (the_agents SimpleParallelEnv_init) \<and>
   SimpleParallelEnv_step
     [(''agent1'', ''terminate''), (''agent4'', ''good''), (''agent0'', ''good'')] SimpleParallelEnv_init =
     (Inl (ValueError
        (''Missing actions for agents: ['' @ [CHR 0x27] @ ''agent2'' @ [CHR 0x27] @ '', '' @
         [CHR 0x27] @ ''agent3'' @ [CHR 0x27] @ '']. Actions provided for non-active agents: ['' @
         [CHR 0x27] @ ''agent0'' @ [CHR 0x27] @ '', '' @ [CHR 0x27] @ ''agent4'' @ [CHR 0x27] @ '']'')),
      SimpleParallelEnv_init)"
proof -
  let ?acts = "[(''agent1'', ''terminate''), (''agent4'', ''good''), (''agent0'', ''good'')]"
  have h: "set (dict_keys ?acts) \<noteq> set (the_agents SimpleParallelEnv_init)"
  proof -
    have "''agent4'' \<notin> set (the_agents SimpleParallelEnv_init)"
      by (simp add: init_fields)
    moreover have "''agent4'' \<in> set (dict_keys ?acts)"
      by (simp add: dict_keys_def)
    ultimately show ?thesis by blast
  qed
  from step_mismatch_message [OF h] obtain missing extra msg where
    m: "sorted missing" "distinct missing"
      "set missing = set (the_agents SimpleParallelEnv_init) - set (dict_keys ?acts)" and
    x: "sorted extra" "distinct extra"
      "set extra = set (dict_keys ?acts) - set (the_agents SimpleParallelEnv_init)" and
    msg: "msg = (if missing \<noteq> [] \<and> extra \<noteq> [] then
              ''Missing actions for agents: '' @ py_repr_list missing @ ''. '' @
              ''Actions provided for non-active agents: '' @ py_repr_list extra
            else if missing \<noteq> [] then ''Missing actions for agents: '' @ py_repr_list missing
            else ''Actions provided for non-active agents: '' @ py_repr_list extra)" and
    s: "SimpleParallelEnv_step ?acts SimpleParallelEnv_init = (Inl (ValueError msg), SimpleParallelEnv_init)"
    by blast
  have "set missing = set [''agent2'', ''agent3'']"
    using m(3) by (simp add: init_fields dict_keys_def)
  with m(1,2) have missing: "missing = [''agent2'', ''agent3'']"
    by (intro sorted_distinct_set_unique) simp_all
  have "set extra = set [''agent4'', ''agent0'']"
    using x(3) by (simp add: init_fields dict_keys_def)
  also have "\<dots> = set [''agent0'', ''agent4'']"
    by (simp add: insert_commute)
  finally have "set extra = set [''agent0'', ''agent4'']" .
  with x(1,2) have extra: "extra = [''agent0'', ''agent4'']"
    by (intro sorted_distinct_set_unique) simp_all
  have "msg = ''Missing actions for agents: ['' @ [CHR 0x27] @ ''agent2'' @ [CHR 0x27] @ '', '' @
         [CHR 0x27] @ ''agent3'' @ [CHR 0x27] @ '']. Actions provided for non-active agents: ['' @
         [CHR 0x27] @ ''agent0'' @ [CHR 0x27] @ '', '' @ [CHR 0x27] @ ''agent4'' @ [CHR 0x27] @ '']''"
    unfolding msg missing extra
    by (simp add: py_repr_list_def py_repr_str_def py_escape_char_def py_isprintable_def Let_def)
  with s h show ?thesis by simp
qed

subsection \<open>C2: dead agents are pruned before \<open>step\<close> returns\<close>

text \<open>
  C2. When \<open>step\<close> returns, the sequence of active agents is the one at the start of
  the call without the agents whose termination flag or truncation flag is true in the
  result just returned, in the same order: every agent with a true flag is absent, every
  agent with both flags false is present. Nothing guards the removal: it takes place on
  every call that returns.
\<close>

theorem step_prunes_dead_agents:
  assumes "SimpleParallelEnv_step actions e = (Inr (obs, rews, terms, truncs, infs), e')"
  shows "the_agents e' =
           filter (\<lambda>a. \<not> (map_of terms a = Some True \<or> map_of truncs a = Some True)) (the_agents e) \<and>
         (\<forall>a. map_of terms a = Some True \<or> map_of truncs a = Some True \<longrightarrow>
                a \<notin> set (the_agents e')) \<and>
         (\<forall>a. map_of terms a = Some False \<and> map_of truncs a = Some False \<longrightarrow>
                a \<in> set (the_agents e'))"
proof -
  from assms obtain
    e': "e' = remove_dead_agents (e\<lparr>step_count := step_count e + 1, terminations := terms,
           truncations := truncs, rewards := rews, infos := infs\<rparr>)"
    by (rule step_success_cases)
  have a: "the_agents e' =
      filter (\<lambda>a. \<not> (map_of terms a = Some True \<or> map_of truncs a = Some True)) (the_agents e)"
    unfolding e' the_agents_remove_dead_agents
    by (simp add: dict_get_map_of the_agents_def)
  from assms obtain
    k: "set (dict_keys actions) = set (the_agents e)" and
    f: "foldl (process_action (step_count e)) ([], [], [], []) actions = (obs, rews, terms, infs)"
    by (rule step_success_cases)
  have keys: "set (dict_keys terms) = set (the_agents e)"
    using foldl_process_action_keys [OF f] k by (simp add: dict_keys_def)
  have "a \<in> set (the_agents e)" if "map_of terms a = Some False" for a
    using that keys map_of_None_keys [of terms a] by auto
  with a show ?thesis by auto
qed

theorem step_prunes_dead_agents_witness:
  "\<exists>e'. SimpleParallelEnv_step actions_termination SimpleParallelEnv_init =
    (Inr ([(''agent1'', ''Step 1 result for agent1 after terminate''),
           (''agent2'', ''Step 1 result for agent2 after good''),
           (''agent3'', ''Step 1 result for agent3 after good'')],
          [(''agent1'', 0), (''agent2'', 1), (''agent3'', 1)],
          [(''agent1'', True), (''agent2'', False), (''agent3'', False)],
          [(''agent1'', False), (''agent2'', False), (''agent3'', False)],
          [(''agent1'', [(''step'', PyInt 1)]),
           (''agent2'', [(''step'', PyInt 1)]),
           (''agent3'', [(''step'', PyInt 1)])]), e') \<and>
     the_agents SimpleParallelEnv_init = [''agent1'', ''agent2'', ''agent3''] \<and>
     the_agents e' = [''agent2'', ''agent3'']"
  using step_prunes_dead_agents [OF step_termination [of SimpleParallelEnv_init]]
    step_termination [of SimpleParallelEnv_init]
  by (simp add: init_fields)

subsection \<open>C3: \<open>reset\<close> raises and restores nothing\<close>

text \<open>
  C3. \<open>reset\<close> does not restore the roster: from every environment state and for every
  seed it raises \<open>NotImplementedError\<close>, out of \<open>ParallelEnv.reset\<close> that it calls first,
  and leaves the environment as it was. After the step of \<open>test_termination\<close> on the
  constructed environment, the active agents are agent2, agent3 before and after
  \<open>reset\<close>, while the roster is agent1, agent2, agent3.
\<close>

theorem reset_raises_not_implemented:
  "SimpleParallelEnv_reset seed e = (Inl NotImplementedError, e) \<and>
   the_agents
     (snd (SimpleParallelEnv_reset None
        (snd (SimpleParallelEnv_step actions_termination SimpleParallelEnv_init)))) =
     [''agent2'', ''agent3''] \<and>
   the_possible_agents
     (snd (SimpleParallelEnv_reset None
        (snd (SimpleParallelEnv_step actions_termination SimpleParallelEnv_init)))) =
     [''agent1'', ''agent2'', ''agent3'']"
  by (simp add: SimpleParallelEnv_reset_raises after_termination_fields)

subsection \<open>C4: the keys of the five results\<close>

text \<open>
  C4. When \<open>step\<close> returns, each of the five mappings it returns (observations,
  rewards, terminations, truncations, infos) has as its key set the set of the agents
  that were active when the call started, before any of them was removed.
\<close>

theorem step_result_keys:
  assumes "SimpleParallelEnv_step actions e = (Inr (obs, rews, terms, truncs, infs), e')"
  shows "set (dict_keys obs) = set (the_agents e) \<and>
         set (dict_keys rews) = set (the_agents e) \<and>
         set (dict_keys terms) = set (the_agents e) \<and>
         set (dict_keys truncs) = set (the_agents e) \<and>
         set (dict_keys infs) = set (the_agents e)"
proof -
  from assms obtain
    keys: "set (dict_keys actions) = set (the_agents e)" and
    f: "foldl (process_action (step_count e)) ([], [], [], []) actions = (obs, rews, terms, infs)" and
    t: "truncs = foldl (\<lambda>d agent. dict_set agent (step_count e + 1 \<ge> max_steps e) d) [] (the_agents e)"
    by (rule step_success_cases)
  have "set (dict_keys truncs) = set (the_agents e)"
    unfolding t by (simp add: dict_keys_foldl_const) (simp add: dict_keys_def)
  moreover from foldl_process_action_keys [OF f] keys have
    "set (dict_keys obs) = set (the_agents e)" "set (dict_keys rews) = set (the_agents e)"
    "set (dict_keys terms) = set (the_agents e)" "set (dict_keys infs) = set (the_agents e)"
    by (simp_all add: dict_keys_def)
  ultimately show ?thesis by simp
qed

theorem step_result_keys_witness:
  "\<exists>e'. SimpleParallelEnv_step actions_termination SimpleParallelEnv_init =
    (Inr ([(''agent1'', ''Step 1 result for agent1 after terminate''),
           (''agent2'', ''Step 1 result for agent2 after good''),
           (''agent3'', ''Step 1 result for agent3 after good'')],
          [(''agent1'', 0), (''agent2'', 1), (''agent3'', 1)],
          [(''agent1'', True), (''agent2'', False), (''agent3'', False)],
          [(''agent1'', False), (''agent2'', False), (''agent3'', False)],
          [(''agent1'', [(''step'', PyInt 1)]),
           (''agent2'', [(''step'', PyInt 1)]),
           (''agent3'', [(''step'', PyInt 1)])]), e') \<and>
     set (dict_keys [(''agent1'', ''Step 1 result for agent1 after terminate''),
           (''agent2'', ''Step 1 result for agent2 after good''),
           (''agent3'', ''Step 1 result for agent3 after good'')]) = set (the_agents SimpleParallelEnv_init) \<and>
     set (dict_keys [(''agent1'', 0::real), (''agent2'', 1), (''agent3'', 1)]) = set (the_agents SimpleParallelEnv_init) \<and>
     set (dict_keys [(''agent1'', True), (''agent2'', False), (''agent3'', False)]) = set (the_agents SimpleParallelEnv_init) \<and>
     set (dict_keys [(''agent1'', False), (''agent2'', False), (''agent3'', False)]) = set (the_agents SimpleParallelEnv_init) \<and>
     set (dict_keys [(''agent1'', [(''step'', PyInt 1)]),
           (''agent2'', [(''step'', PyInt 1)]),
           (''agent3'', [(''step'', PyInt 1)])]) = set (the_agents SimpleParallelEnv_init)"
  using step_result_keys [OF step_termination [of SimpleParallelEnv_init]]
    step_termination [of SimpleParallelEnv_init]
  by (simp add: init_fields)

subsection \<open>C5: a mismatch changes nothing\<close>

text \<open>
  C5. When the key set of the action mapping is not the set of active agents, \<open>step\<close>
  raises \<open>ValueError\<close> and the environment is the one before the call: the store with
  the sequence of active agents, the step counter and the four signal mappings are as
  they were, and no result is produced.
\<close>

theorem step_mismatch_no_effect:
  assumes "set (dict_keys actions) \<noteq> set (the_agents e)"
  shows "\<exists>msg. SimpleParallelEnv_step actions e = (Inl (ValueError msg), e)"
  using validate_actions_mismatch [OF assms] step_raises by blast

theorem step_mismatch_no_effect_witness:
  "set (dict_keys [(''agent1'', ''good''), (''agent2'', ''bad'')]) \<noteq> set (the_agents SimpleParallelEnv_init) \<and>
   (\<exists>msg. SimpleParallelEnv_step [(''agent1'', ''good''), (''agent2'', ''bad'')] SimpleParallelEnv_init
            = (Inl (ValueError msg), SimpleParallelEnv_init))"
proof -
  have h: "set (dict_keys [(''agent1'', ''good''), (''agent2'', ''bad'')]) \<noteq> set (the_agents SimpleParallelEnv_init)"
  proof -
    have "''agent3'' \<in> set (the_agents SimpleParallelEnv_init)"
      by (simp add: init_fields)
    moreover have "''agent3'' \<notin> set (dict_keys [(''agent1'', ''good''), (''agent2'', ''bad'')])"
      by (simp add: dict_keys_def)
    ultimately show ?thesis by blast
  qed
  from step_mismatch_no_effect [OF h] h show ?thesis by blast
qed

subsection \<open>C6: the termination scenario\<close>



subsection \<open>C7: the truncation scenario\<close>

text \<open>
  C7. For the environment of the tests with the three agents agent1, agent2, agent3:
  \<open>reset\<close> returns no observations and no infos, it raises \<open>NotImplementedError\<close> and
  leaves the constructed environment as it was. On that environment with \<open>max_steps\<close>
  set to 2, the first \<open>step\<close> with the actions good, bad, neutral returns the rewards
  1.0, -1.0, 0.0, all truncation flags false, and leaves the three agents active; a second
  \<open>step\<close> with the same actions returns all truncation flags true.
\<close>

theorem truncation_scenario:
  "SimpleParallelEnv_reset seed SimpleParallelEnv_init =
     (Inl NotImplementedError, SimpleParallelEnv_init) \<and>
   (\<exists>obs rews terms truncs infs e3 obs' rews' terms' truncs' infs' e4.
     SimpleParallelEnv_step actions_all_agents (SimpleParallelEnv_init\<lparr>max_steps := 2\<rparr>) =
       (Inr (obs, rews, terms, truncs, infs), e3) \<and>
     rews = [(''agent1'', 1), (''agent2'', - 1), (''agent3'', 0)] \<and>
     truncs = [(''agent1'', False), (''agent2'', False), (''agent3'', False)] \<and>
     the_agents e3 = [''agent1'', ''agent2'', ''agent3''] \<and>
     SimpleParallelEnv_step actions_all_agents e3 =
       (Inr (obs', rews', terms', truncs', infs'), e4) \<and>
     truncs' = [(''agent1'', True), (''agent2'', True), (''agent3'', True)])"
proof -
  let ?e1 = "SimpleParallelEnv_init\<lparr>max_steps := 2\<rparr>"
  have a1: "the_agents ?e1 = [''agent1'', ''agent2'', ''agent3'']"
    using init_fields(1) by (simp add: the_agents_def)
  have c1: "step_count ?e1 = 0" and m1: "max_steps ?e1 = 2"
    by (simp_all add: init_fields)
  from step_all_agents [OF a1] obtain obs infs where
    s1: "SimpleParallelEnv_step actions_all_agents ?e1 =
      (Inr (obs, [(''agent1'', 1), (''agent2'', - 1), (''agent3'', 0)],
            [(''agent1'', False), (''agent2'', False), (''agent3'', False)],
            [(''agent1'', False), (''agent2'', False), (''agent3'', False)], infs),
       remove_dead_agents (?e1\<lparr>step_count := 1,
         terminations := [(''agent1'', False), (''agent2'', False), (''agent3'', False)],
         truncations := [(''agent1'', False), (''agent2'', False), (''agent3'', False)],
         rewards := [(''agent1'', 1), (''agent2'', - 1), (''agent3'', 0)],
         infos := infs\<rparr>))"
    unfolding c1 m1 by auto
  let ?e3 = "remove_dead_agents (?e1\<lparr>step_count := 1,
         terminations := [(''agent1'', False), (''agent2'', False), (''agent3'', False)],
         truncations := [(''agent1'', False), (''agent2'', False), (''agent3'', False)],
         rewards := [(''agent1'', 1), (''agent2'', - 1), (''agent3'', 0)],
         infos := infs\<rparr>)"
  have a3: "the_agents ?e3 = [''agent1'', ''agent2'', ''agent3'']"
    using a1
    by (simp add: the_agents_remove_dead_agents dict_get_def) (simp add: the_agents_def)
  have c3: "step_count ?e3 = 1" and m3: "max_steps ?e3 = 2"
    by (simp_all add: remove_dead_agents_fields)
  from step_all_agents [OF a3] obtain obs' infs' e4 where
    s2: "SimpleParallelEnv_step actions_all_agents ?e3 =
      (Inr (obs', [(''agent1'', 1), (''agent2'', - 1), (''agent3'', 0)],
            [(''agent1'', False), (''agent2'', False), (''agent3'', False)],
            [(''agent1'', True), (''agent2'', True), (''agent3'', True)], infs'), e4)"
    unfolding c3 m3 by auto
  from s1 a3 s2 have
    "\<exists>obs rews terms truncs infs e3 obs' rews' terms' truncs' infs' e4.
     SimpleParallelEnv_step actions_all_agents ?e1 = (Inr (obs, rews, terms, truncs, infs), e3) \<and>
     rews = [(''agent1'', 1), (''agent2'', - 1), (''agent3'', 0)] \<and>
     truncs = [(''agent1'', False), (''agent2'', False), (''agent3'', False)] \<and>
     the_agents e3 = [''agent1'', ''agent2'', ''agent3''] \<and>
     SimpleParallelEnv_step actions_all_agents e3 =
       (Inr (obs', rews', terms', truncs', infs'), e4) \<and>
     truncs' = [(''agent1'', True), (''agent2'', True), (''agent3'', True)]"
    by blast
  with SimpleParallelEnv_reset_raises [of seed SimpleParallelEnv_init] show ?thesis
    by (rule conjI)
qed

subsection \<open>C8: the active agents are a subsequence of the roster\<close>

text \<open>
  C8. From the constructed environment, after any number of \<open>step\<close> and \<open>reset\<close>
  calls, raised or not, the roster of possible agents is agent1, agent2, agent3, and the
  sequence of active agents is this roster filtered by membership in the active agents,
  hence a subsequence of it. Every further step leaves a subsequence of the active agents
  before it, and \<open>_remove_dead_agents\<close> always leaves a filtering of the sequence it found:
  agents are neither reordered nor added again.
\<close>

theorem agents_subsequence_of_roster:
  fixes calls
  defines "e' \<equiv> run_calls calls SimpleParallelEnv_init"
  shows "the_possible_agents e' = [''agent1'', ''agent2'', ''agent3''] \<and>
         the_agents e' = filter (\<lambda>a. a \<in> set (the_agents e')) (the_possible_agents e') \<and>
         subseq (the_agents e') (the_possible_agents e') \<and>
         (\<forall>actions. subseq (the_agents (snd (SimpleParallelEnv_step actions e'))) (the_agents e')) \<and>
         (\<forall>x. \<exists>keep. the_agents (remove_dead_agents x) = filter keep (the_agents x))"
proof -
  have lt: "possible_agents SimpleParallelEnv_init < next_addr SimpleParallelEnv_init"
    by (simp add: init_fields)
  have m: "the_agents SimpleParallelEnv_init =
      filter (\<lambda>a. a \<in> set (the_agents SimpleParallelEnv_init))
        (the_possible_agents SimpleParallelEnv_init)"
    by (simp add: init_fields)
  from roster_run_calls [OF lt m, of calls] have
    p: "the_possible_agents e' = [''agent1'', ''agent2'', ''agent3'']" and
    a: "the_agents e' = filter (\<lambda>a. a \<in> set (the_agents e')) (the_possible_agents e')"
    by (simp_all add: e'_def init_fields)
  have "subseq (filter (\<lambda>a. a \<in> set (the_agents e')) (the_possible_agents e')) (the_possible_agents e')"
    by (rule subseq_filter_left)
  with a have s: "subseq (the_agents e') (the_possible_agents e')"
    by simp
  have r: "\<exists>keep. the_agents (remove_dead_agents x) = filter keep (the_agents x)" for x
    using the_agents_remove_dead_agents [of x] by blast
  from p a s r step_subseq show ?thesis by blast
qed

theorem agents_subsequence_of_roster_witness:
  "the_agents (run_calls [Step actions_termination, Reset None] SimpleParallelEnv_init) =
     [''agent2'', ''agent3''] \<and>
   the_possible_agents (run_calls [Step actions_termination, Reset None] SimpleParallelEnv_init) =
     [''agent1'', ''agent2'', ''agent3''] \<and>
   subseq
     (the_agents (run_calls [Step actions_termination, Reset None] SimpleParallelEnv_init))
     (the_possible_agents (run_calls [Step actions_termination, Reset None] SimpleParallelEnv_init))"
proof -
  let ?e' = "run_calls [Step actions_termination, Reset None] SimpleParallelEnv_init"
  from agents_subsequence_of_roster [of "[Step actions_termination, Reset None]"]
  have s: "subseq (the_agents ?e') (the_possible_agents ?e')"
    and p: "the_possible_agents ?e' = [''agent1'', ''agent2'', ''agent3'']"
    by blast+
  have a: "the_agents ?e' = [''agent2'', ''agent3'']"
    by (simp add: SimpleParallelEnv_reset_raises after_termination_fields)
  from a p s show ?thesis
    by (intro conjI)
qed

subsection \<open>C9: the default \<open>state()\<close>\<close>

text \<open>
  C9. The default \<open>state()\<close> has no argument but the environment itself, raises
  \<open>NotImplementedError\<close> and leaves the environment as it was.
\<close>

theorem state_default_raises: "ParallelEnv_state e = (Inl NotImplementedError, e)"
  by (simp add: ParallelEnv_state_def)

subsection \<open>C10: flags that are absent count as false\<close>

text \<open>
  C10, as stated, fails: an active agent that is absent from the terminations mapping is
  removed all the same when its truncation flag is true. Here agent1 has no terminations
  entry and the truncation flag true.
\<close>

theorem remove_dead_agents_absent_counterexample:
  "''agent1'' \<in> set (the_agents
      (SimpleParallelEnv_init\<lparr>terminations := [], truncations := [(''agent1'', True)]\<rparr>)) \<and>
   ''agent1'' \<notin> set (dict_keys (terminations
      (SimpleParallelEnv_init\<lparr>terminations := [], truncations := [(''agent1'', True)]\<rparr>))) \<and>
   ''agent1'' \<notin> set (the_agents (remove_dead_agents
      (SimpleParallelEnv_init\<lparr>terminations := [], truncations := [(''agent1'', True)]\<rparr>)))"
proof -
  let ?e = "SimpleParallelEnv_init\<lparr>terminations := [], truncations := [(''agent1'', True)]\<rparr>"
  have a: "the_agents ?e = [''agent1'', ''agent2'', ''agent3'']"
    using init_fields(1) by (simp add: the_agents_def)
  show ?thesis
    by (simp add: the_agents_remove_dead_agents a dict_get_def dict_keys_def)
qed

text \<open>
  C10, amended. \<open>_remove_dead_agents\<close> is a total function of the environment, whatever the
  terminations and truncations mappings hold. For an active agent, a flag that is absent
  from its mapping counts as false: an agent without a terminations entry is kept exactly
  when its truncation flag is not true, an agent without a truncations entry is kept
  exactly when its termination flag is not true, and an agent absent from both mappings
  is kept.
\<close>

theorem remove_dead_agents_defaults:
  assumes "a \<in> set (the_agents e)"
  shows "(a \<notin> set (dict_keys (terminations e)) \<longrightarrow>
            (a \<in> set (the_agents (remove_dead_agents e)) \<longleftrightarrow> \<not> dict_get (truncations e) a False)) \<and>
         (a \<notin> set (dict_keys (truncations e)) \<longrightarrow>
            (a \<in> set (the_agents (remove_dead_agents e)) \<longleftrightarrow> \<not> dict_get (terminations e) a False)) \<and>
         (a \<notin> set (dict_keys (terminations e)) \<and> a \<notin> set (dict_keys (truncations e)) \<longrightarrow>
            a \<in> set (the_agents (remove_dead_agents e)))"
proof -
  have "dict_get d a False = False" if "a \<notin> set (dict_keys d)" for d :: "(string, bool) dict"
    using that by (simp add: dict_get_def map_of_None_keys [symmetric])
  then show ?thesis
    using assms by (auto simp: the_agents_remove_dead_agents)
qed

theorem remove_dead_agents_defaults_witness:
  "''agent1'' \<in> set (the_agents
      (SimpleParallelEnv_init\<lparr>terminations := [(''agent2'', True)],
         truncations := [(''agent1'', False)]\<rparr>)) \<and>
   ''agent3'' \<in> set (the_agents
      (SimpleParallelEnv_init\<lparr>terminations := [(''agent2'', True)],
         truncations := [(''agent1'', False)]\<rparr>)) \<and>
   ''agent1'' \<notin> set (dict_keys [(''agent2'', True)]) \<and>
   ''agent3'' \<notin> set (dict_keys [(''agent2'', True)]) \<and>
   ''agent3'' \<notin> set (dict_keys [(''agent1'', False)]) \<and>
   ''agent1'' \<in> set (the_agents (remove_dead_agents
       (SimpleParallelEnv_init\<lparr>terminations := [(''agent2'', True)],
          truncations := [(''agent1'', False)]\<rparr>))) \<and>
   ''agent3'' \<in> set (the_agents (remove_dead_agents
       (SimpleParallelEnv_init\<lparr>terminations := [(''agent2'', True)],
          truncations := [(''agent1'', False)]\<rparr>)))"
proof -
  let ?e = "SimpleParallelEnv_init\<lparr>terminations := [(''agent2'', True)],
              truncations := [(''agent1'', False)]\<rparr>"
  have a1: "''agent1'' \<in> set (the_agents ?e)" and a3: "''agent3'' \<in> set (the_agents ?e)"
    using init_fields(1) by (simp_all add: the_agents_def)
  from remove_dead_agents_defaults [OF a1] remove_dead_agents_defaults [OF a3] a1 a3
  show ?thesis
    by (simp add: dict_keys_def dict_get_def)
qed

end
